theory Spec2Isabelle
  imports Main "HOL-Library.Sublist" "HOL-Library.AList"
begin

section \<open>Strings of the host language\<close>

text \<open>
  The two string primitives the title locator uses.
  \<^item> \<open>s.includes(t)\<close> holds when \<open>t\<close> is a contiguous part of \<open>s\<close>; the empty
    string is included in every string.
  \<^item> \<open>s.replace("\n", "")\<close> with a string pattern rewrites the first occurrence of the
    pattern only: one line feed is dropped, later ones stay.
\<close>

definition newline :: char where
  "newline = CHR 0x0A"

definition str_includes :: "string \<Rightarrow> string \<Rightarrow> bool" where
  "str_includes s t = sublist t s"

definition replace_newline :: "string \<Rightarrow> string" where
  "replace_newline s = remove1 newline s"

text \<open>Removal of every line feed, the reading of "embedded newlines removed".\<close>

definition strip_newlines :: "string \<Rightarrow> string" where
  "strip_newlines s = filter (\<lambda>c. c \<noteq> newline) s"

section \<open>The parsed PDF\<close>

text \<open>
  A parsed document is the sequence of its pages; a page is the sequence of the
  \<open>str\<close> fields of its text items, in content-stream order. Pages are numbered
  from 1, so \<open>getPage n\<close> reads position \<open>n - 1\<close>; the locator only asks for
  pages \<open>3 .. numPages\<close>, which are always there.
\<close>

type_synonym text_content = "string list"
type_synonym pdf = "text_content list"

definition numPages :: "pdf \<Rightarrow> nat" where
  "numPages doc = length doc"

definition getPage :: "pdf \<Rightarrow> nat \<Rightarrow> text_content" where
  "getPage doc pageNb = doc ! (pageNb - 1)"

section \<open>Title locator: \<open>find_page_number\<close>\<close>

text \<open>
  The three variables the nested loops of \<open>find_page_number\<close> update:
  the result object \<open>titlesPages\<close> (page number to list of title indices), the list
  \<open>foundTitles\<close> of title texts already seen, and the per-page accumulator
  \<open>scrapText\<close>. The result object is kept as the list of its entries in the order
  \<open>Object.entries\<close> enumerates them: a key that is already there keeps its place, a
  new key goes to the end (pages are visited in increasing order, so this is also the
  increasing order of the keys).
\<close>

type_synonym page_map = "(nat \<times> nat list) list"

record locator_state =
  titlesPages :: page_map
  foundTitles :: "string list"
  scrapText :: string

text \<open>
  Body of the \<open>table_of_content.forEach((title, index) => ...)\<close> callback.
  On a match the title is either pushed on \<open>foundTitles\<close> (when it is not there yet
  and \<open>extrapages > 0\<close>) or its index is pushed on \<open>titlesPages[pageNb]\<close>, which is
  created empty when missing; in both cases the accumulator is cleared.
\<close>

definition push_index :: "nat \<Rightarrow> nat \<Rightarrow> page_map \<Rightarrow> page_map" where
  "push_index pageNb index tp =
     AList.update pageNb ((case map_of tp pageNb of None \<Rightarrow> [] | Some l \<Rightarrow> l) @ [index]) tp"

definition check_title :: "int \<Rightarrow> nat \<Rightarrow> locator_state \<Rightarrow> nat \<times> string \<Rightarrow> locator_state" where
  "check_title extrapages pageNb st entry =
     (case entry of (index, title) \<Rightarrow>
        if str_includes (scrapText st) title then
          (if title \<notin> set (foundTitles st) \<and> extrapages > 0
           then st\<lparr>foundTitles := foundTitles st @ [title], scrapText := []\<rparr>
           else st\<lparr>titlesPages := push_index pageNb index (titlesPages st), scrapText := []\<rparr>)
        else st)"

text \<open>One round of the loop over the text items: append the item, then try every title in order.\<close>

definition scan_item :: "string list \<Rightarrow> int \<Rightarrow> nat \<Rightarrow> locator_state \<Rightarrow> string \<Rightarrow> locator_state" where
  "scan_item table_of_content extrapages pageNb st item =
     foldl (check_title extrapages pageNb)
       (st\<lparr>scrapText := scrapText st @ replace_newline item\<rparr>)
       (enumerate 0 table_of_content)"

text \<open>One round of the loop over the pages: the accumulator starts empty on every page.\<close>

definition scan_page :: "pdf \<Rightarrow> string list \<Rightarrow> int \<Rightarrow> locator_state \<Rightarrow> nat \<Rightarrow> locator_state" where
  "scan_page doc table_of_content extrapages st pageNb =
     foldl (scan_item table_of_content extrapages pageNb)
       (st\<lparr>scrapText := []\<rparr>)
       (getPage doc pageNb)"

definition initial_state :: locator_state where
  "initial_state = \<lparr>titlesPages = [], foundTitles = [], scrapText = []\<rparr>"

definition locate :: "pdf \<Rightarrow> string list \<Rightarrow> int \<Rightarrow> locator_state" where
  "locate doc table_of_content extrapages =
     foldl (scan_page doc table_of_content extrapages) initial_state
       [3 ..< Suc (numPages doc)]"

definition find_page_number :: "pdf \<Rightarrow> string list \<Rightarrow> int \<Rightarrow> page_map" where
  "find_page_number doc table_of_content extrapages =
     titlesPages (locate doc table_of_content extrapages)"

text \<open>
  The text the locator matches against on a page: the items of the page, each after
  \<open>replace\<close>, joined. The accumulator is always a part of it.
\<close>

definition page_text :: "pdf \<Rightarrow> nat \<Rightarrow> string" where
  "page_text doc pageNb = concat (map replace_newline (getPage doc pageNb))"

text \<open>Properties of the result object: a predicate on page keys and listed indices.\<close>

definition entries_ok :: "(nat \<Rightarrow> nat \<Rightarrow> bool) \<Rightarrow> page_map \<Rightarrow> bool" where
  "entries_ok P tp = (\<forall>(q, l) \<in> set tp. \<forall>i \<in> set l. P q i)"

definition occurs_ok :: "pdf \<Rightarrow> string list \<Rightarrow> nat \<Rightarrow> nat \<Rightarrow> bool" where
  "occurs_ok doc toc q i =
     (3 \<le> q \<and> q \<le> numPages doc \<and> i < length toc \<and> str_includes (page_text doc q) (toc ! i))"

definition page_inv :: "pdf \<Rightarrow> string list \<Rightarrow> string \<Rightarrow> locator_state \<Rightarrow> bool" where
  "page_inv doc toc seen st =
     (entries_ok (occurs_ok doc toc) (titlesPages st) \<and> suffix (scrapText st) seen)"

definition seen_inv :: "string list \<Rightarrow> locator_state \<Rightarrow> bool" where
  "seen_inv toc st =
     entries_ok (\<lambda>q i. i < length toc \<and> toc ! i \<in> set (foundTitles st)) (titlesPages st)"

subsection \<open>The scenarios of the specification\<close>

definition toc_titles :: "string list" where
  "toc_titles = [''Introduction'', ''1. Scope'', ''2. Method'']"

text \<open>
  Scenario A: four pages, "Introduction" on page 3 (split over two text runs) and
  "1. Scope" on page 4; "2. Method" is nowhere.
\<close>

definition scenario_A :: pdf where
  "scenario_A =
     [[''Annual report''],
      [''Contents''],
      [''Intro'', ''duction'', ''This report covers''],
      [''1. Scope'', ''The scope is'']]"

text \<open>Scenario A behind another cover: pages 1 and 2 differ, pages 3 and 4 do not.\<close>

definition scenario_A_other_cover :: pdf where
  "scenario_A_other_cover =
     [[''Quarterly report'', ''Draft''],
      [''Table of contents'', ''Introduction''],
      [''Intro'', ''duction'', ''This report covers''],
      [''1. Scope'', ''The scope is'']]"

text \<open>
  Scenario B, with the cover on pages 1 and 2: the overflow page 2 mentions
  "Introduction", the contents page 3 lists the three titles, and the section itself
  starts on page 4.
\<close>

definition scenario_B :: pdf where
  "scenario_B =
     [[''Annual report''],
      [''see the Introduction''],
      [''Contents'', ''Introduction'', ''1. Scope'', ''2. Method''],
      [''Introduction'', ''This report covers'']]"

text \<open>
  Scenario B read with the overflow text on the first scanned page: page 3 mentions
  "Introduction" in passing, page 4 holds the section.
\<close>

definition scenario_B_scanned :: pdf where
  "scenario_B_scanned =
     [[''Annual report''],
      [''Contents''],
      [''see the Introduction''],
      [''Introduction'', ''This report covers'']]"

text \<open>A title whose text comes back on a later page (a running head, a continued section).\<close>

definition repeated_title :: pdf where
  "repeated_title =
     [[''Annual report''],
      [''Contents''],
      [''Introduction''],
      [''Introduction (continued)'']]"

text \<open>A page whose single text run holds one line feed inside the title.\<close>

definition broken_line :: pdf where
  "broken_line =
     [[''Annual report''],
      [''Contents''],
      [''Intro'' @ [newline] @ ''duction'']]"

section \<open>Errors\<close>

datatype error =
    CountMismatch \<comment> \<open>"mergePDFs requires exactly two PDF buffers."\<close>
  | PdfLoadError \<comment> \<open>the bytes are not a PDF\<close>
  | EmptyDocumentError \<comment> \<open>a page is removed from a document without pages\<close>
  | PageIndexError \<comment> \<open>a page index outside the document\<close>
  | SelectorNotFound \<comment> \<open>no element matches the selector given to \<open>$eval\<close>\<close>
  | TypeError \<comment> \<open>a property is read from \<open>undefined\<close> or \<open>null\<close>\<close>

definition and_then :: "error + 'a \<Rightarrow> ('a \<Rightarrow> error + 'b) \<Rightarrow> error + 'b" where
  "and_then r f = (case r of Inl e \<Rightarrow> Inl e | Inr x \<Rightarrow> f x)"

fun fold_result :: "('s \<Rightarrow> 'a \<Rightarrow> error + 's) \<Rightarrow> 's \<Rightarrow> 'a list \<Rightarrow> error + 's" where
  "fold_result f s [] = Inr s"
| "fold_result f s (x # xs) = (case f s x of Inl e \<Rightarrow> Inl e | Inr s' \<Rightarrow> fold_result f s' xs)"

section \<open>PDF assembler: \<open>mergePDFs\<close>\<close>

text \<open>
  Modelled from the spec: the PDF library the assembler calls is not part of the
  repository. A document is the sequence of its pages, a buffer either holds a
  document or cannot be loaded; a page can be deleted by index, copied from another
  document, inserted at an index, and a document serialised to bytes. An index
  outside the document is an error, as is deleting from a document without pages.
\<close>

datatype 'p pdf_buffer = PdfBytes "'p list" | Unparseable

definition load :: "'p pdf_buffer \<Rightarrow> error + 'p list" where
  "load buffer = (case buffer of PdfBytes doc \<Rightarrow> Inr doc | Unparseable \<Rightarrow> Inl PdfLoadError)"

definition save :: "'p list \<Rightarrow> 'p pdf_buffer" where
  "save doc = PdfBytes doc"

definition removePage :: "nat \<Rightarrow> 'p list \<Rightarrow> error + 'p list" where
  "removePage index doc =
     (if doc = [] then Inl EmptyDocumentError
      else if index < length doc then Inr (take index doc @ drop (Suc index) doc)
      else Inl PageIndexError)"

definition copyPages :: "'p list \<Rightarrow> nat list \<Rightarrow> error + 'p list" where
  "copyPages srcDoc indices =
     (if \<forall>i \<in> set indices. i < length srcDoc then Inr (map (\<lambda>i. srcDoc ! i) indices)
      else Inl TypeError)"

definition insertPage :: "nat \<Rightarrow> 'p \<Rightarrow> 'p list \<Rightarrow> error + 'p list" where
  "insertPage index page doc =
     (if index \<le> length doc then Inr (take index doc @ page # drop index doc)
      else Inl PageIndexError)"

text \<open>The loop \<open>for (let i = 0; i < extrapages; i++) firstPDFDoc.removePage(1)\<close>.\<close>

fun remove_overflow :: "nat \<Rightarrow> 'p list \<Rightarrow> error + 'p list" where
  "remove_overflow 0 doc = Inr doc"
| "remove_overflow (Suc n) doc =
     (case removePage 1 doc of Inl e \<Rightarrow> Inl e | Inr doc' \<Rightarrow> remove_overflow n doc')"

text \<open>
  \<open>mergePDFs\<close>: the length check, the two loads, \<open>restPDFDoc.removePage(0)\<close>, the
  trimming loop on the first document, the copy of its page 0, the insertion at the
  front of the second document, and the serialisation of the second document.
\<close>

definition mergePDFs :: "'p pdf_buffer list \<Rightarrow> int \<Rightarrow> error + 'p pdf_buffer" where
  "mergePDFs pdfBuffers extrapages =
     (if length pdfBuffers \<noteq> 2 then Inl CountMismatch
      else
        and_then (load (pdfBuffers ! 0)) (\<lambda>firstPDFDoc.
        and_then (load (pdfBuffers ! 1)) (\<lambda>restPDFDoc.
        and_then (removePage 0 restPDFDoc) (\<lambda>restPDFDoc.
        and_then (remove_overflow (nat extrapages) firstPDFDoc) (\<lambda>firstPDFDoc.
        and_then (copyPages firstPDFDoc [0]) (\<lambda>copied.
          case copied of
            [] \<Rightarrow> Inl TypeError
          | copiedPages # _ \<Rightarrow>
              and_then (insertPage 0 copiedPages restPDFDoc) (\<lambda>restPDFDoc.
              Inr (save restPDFDoc))))))))"

text \<open>A one-page cover, a cover that overflows by one page, and a body of three pages.\<close>

definition cover_doc :: "string list" where
  "cover_doc = [''cover'']"

definition cover_overflow_doc :: "string list" where
  "cover_overflow_doc = [''cover'', ''cover overflow'']"

definition body_doc :: "string list" where
  "body_doc = [''blank'', ''contents'', ''chapter 1'']"

section \<open>The loaded document and the table-of-contents injector\<close>

text \<open>
  Modelled from the spec: the headless browser is not part of the repository. Of the
  loaded document the model keeps what the two update functions read and write:
  the text of the first element of class \<open>totalPages\<close> (if there is one) and the
  children of the element with id \<open>table-of-content\<close> (if there is one). Following
  the HTML contract, the first child element of a TOC child and its first \<open>a\<close>
  descendant are the same link; a TOC child without it is \<open>None\<close>. A link carries
  its own text and the spans appended to it. \<open>page.$\<close> yields null when nothing
  matches, \<open>page.$eval\<close> rejects when nothing matches, and a script that reads a
  property of \<open>undefined\<close> or \<open>null\<close> makes \<open>page.evaluate\<close> reject.
\<close>

datatype span = Span (className: string) (spanText: string)

record toc_link =
  linkText :: string
  appended :: "span list"

type_synonym toc_child = "toc_link option"

record document =
  totalPages :: "string option"
  tableOfContent :: "toc_child list option"

text \<open>
  The messages of \<open>log\<close>, without the time stamp the function puts in front:
  the start and the end of the TOC update, "the table of contents was not found",
  the start of the page-count update and its end with the text read back.
\<close>

datatype log_message =
    TocUpdateStarted
  | TocNotFound
  | TocUpdateDone
  | PageCountStarted
  | PageCountDone "string option"

record browser_page =
  dom :: document
  console :: "log_message list"

definition log :: "log_message \<Rightarrow> browser_page \<Rightarrow> browser_page" where
  "log text page = page\<lparr>console := console page @ [text]\<rparr>"

text \<open>A number stored in \<open>textContent\<close> or used as an object key: its decimal digits.\<close>

definition digit_char :: "nat \<Rightarrow> char" where
  "digit_char d = ''0123456789'' ! d"

fun show_nat :: "nat \<Rightarrow> string" where
  "show_nat n = (if n < 10 then [digit_char n] else show_nat (n div 10) @ [digit_char (n mod 10)])"

declare show_nat.simps [simp del]

definition textContent :: "toc_link \<Rightarrow> string" where
  "textContent link = linkText link @ concat (map spanText (appended link))"

text \<open>
  \<open>updatePageCount\<close>: \<open>$eval\<close> on \<open>.totalPages\<close> stores the count, a second
  \<open>$eval\<close> reads it back for the log line.
\<close>

definition updatePageCount :: "browser_page \<Rightarrow> nat \<Rightarrow> error + browser_page" where
  "updatePageCount page firstPagesCount =
     (let page = log PageCountStarted page in
      case totalPages (dom page) of
        None \<Rightarrow> Inl SelectorNotFound
      | Some _ \<Rightarrow>
          (let page = page\<lparr>dom := (dom page)\<lparr>totalPages := Some (show_nat firstPagesCount)\<rparr>\<rparr> in
           case totalPages (dom page) of
             None \<Rightarrow> Inl SelectorNotFound
           | Some text \<Rightarrow> Inr (log (PageCountDone (Some text)) page)))"

text \<open>The first in-page script of \<open>updateTableOfContent\<close>: the text of every child's link.\<close>

fun collect_titles :: "toc_child list \<Rightarrow> error + string list" where
  "collect_titles [] = Inr []"
| "collect_titles (None # children) = Inl TypeError"
| "collect_titles (Some link # children) =
     (case collect_titles children of
        Inl e \<Rightarrow> Inl e
      | Inr titles \<Rightarrow> Inr (textContent link # titles))"

text \<open>
  The second in-page script: for every entry of \<open>titlesPages\<close> and every index in it,
  the child at that index (when there is one) gets a \<open>dots\<close> span and a page-number
  span appended to its link; the class of the page-number span is chosen from the
  link's text before the spans are appended.
\<close>

definition add_page_number :: "string \<Rightarrow> toc_link \<Rightarrow> toc_link" where
  "add_page_number pageKey link =
     (let titlePage =
        Span (if str_includes (textContent link) ''.''
              then ''subtitle-page-number'' else ''title-page-number'') pageKey;
          dots = Span ''dots'' []
      in link\<lparr>appended := appended link @ [dots, titlePage]\<rparr>)"

definition inject_child :: "string \<Rightarrow> toc_child list \<Rightarrow> nat \<Rightarrow> error + toc_child list" where
  "inject_child pageKey children childIndex =
     (if childIndex < length children then
        (case children ! childIndex of
           None \<Rightarrow> Inl TypeError
         | Some link \<Rightarrow> Inr (children[childIndex := Some (add_page_number pageKey link)]))
      else Inr children)"

definition inject_numbers :: "toc_child list \<Rightarrow> page_map \<Rightarrow> error + toc_child list" where
  "inject_numbers children tp =
     fold_result
       (\<lambda>children entry. case entry of (pageNb, childs) \<Rightarrow>
          fold_result (inject_child (show_nat pageNb)) children childs)
       children tp"

definition updateTableOfContent :: "browser_page \<Rightarrow> pdf \<Rightarrow> int \<Rightarrow> error + browser_page" where
  "updateTableOfContent page doc extrapages =
     (let page = log TocUpdateStarted page in
      case tableOfContent (dom page) of
        None \<Rightarrow> Inr (log TocNotFound page)
      | Some children \<Rightarrow>
          and_then (collect_titles children) (\<lambda>titles.
          and_then (inject_numbers children (find_page_number doc titles extrapages)) (\<lambda>children'.
          Inr (log TocUpdateDone
                 (page\<lparr>dom := (dom page)\<lparr>tableOfContent := Some children'\<rparr>\<rparr>)))))"

text \<open>
  The two calls \<open>generatePDF\<close> makes once the preliminary PDF is parsed:
  \<open>await updatePageCount(page1, pdf.numPages)\<close>, then
  \<open>await updateTableOfContent(page1, pdf, extrapages)\<close>; the surrounding
  \<open>catch\<close> throws again whatever it catches.
\<close>

definition generatePDF_update :: "browser_page \<Rightarrow> pdf \<Rightarrow> int \<Rightarrow> error + browser_page" where
  "generatePDF_update page1 doc extrapages =
     and_then (updatePageCount page1 (numPages doc)) (\<lambda>page1.
     updateTableOfContent page1 doc extrapages)"

section \<open>The HTTP front end\<close>

text \<open>
  What \<open>req.body\<close> holds after the raw body parser for \<open>text/html\<close>: a buffer
  with the bytes of the body (of length zero for an empty body), or, when nothing was
  parsed, \<open>undefined\<close> or an empty object. \<open>!htmlPage\<close> is true of \<open>undefined\<close>
  only: every object is truthy, a buffer of length zero included.
\<close>

datatype request_body = Undefined | EmptyObject | Buffer string

definition falsy :: "request_body \<Rightarrow> bool" where
  "falsy body = (case body of Undefined \<Rightarrow> True | EmptyObject \<Rightarrow> False | Buffer _ \<Rightarrow> False)"

definition toString :: "request_body \<Rightarrow> error + string" where
  "toString body =
     (case body of
        Undefined \<Rightarrow> Inl TypeError
      | EmptyObject \<Rightarrow> Inr ''[object Object]''
      | Buffer bytes \<Rightarrow> Inr bytes)"

datatype 'page call = GenerateHTML string | GeneratePDF 'page | Content 'page

datatype 'pdf payload = Text string | Bytes 'pdf

record 'pdf response =
  status :: nat
  contentType :: "string option"
  sent :: "'pdf payload"

text \<open>
  A handler returns the response and the calls it made to the rendering functions,
  in order. The rendering functions are parameters: they drive the browser.
\<close>

definition pdf_visualiser ::
  "(string \<Rightarrow> error + 'page) \<Rightarrow> ('page \<Rightarrow> error + 'pdf) \<Rightarrow> request_body
     \<Rightarrow> 'pdf response \<times> 'page call list" where
  "pdf_visualiser generateHTML generatePDF htmlPage =
     (if falsy htmlPage then
        (\<lparr>status = 400, contentType = None, sent = Text ''Request body is empty.''\<rparr>, [])
      else
        (let failed = \<lparr>status = 500, contentType = Some ''application/pdf'',
                        sent = Text ''Error generating PDF''\<rparr>
         in case toString htmlPage of
              Inl e \<Rightarrow> (failed, [])
            | Inr text \<Rightarrow>
                (case generateHTML text of
                   Inl e \<Rightarrow> (failed, [GenerateHTML text])
                 | Inr html \<Rightarrow>
                     (case generatePDF html of
                        Inl e \<Rightarrow> (failed, [GenerateHTML text, GeneratePDF html])
                      | Inr pdf \<Rightarrow>
                          (\<lparr>status = 200, contentType = Some ''application/pdf'', sent = Bytes pdf\<rparr>,
                           [GenerateHTML text, GeneratePDF html])))))"

definition html_visualiser ::
  "(string \<Rightarrow> error + 'page) \<Rightarrow> ('page \<Rightarrow> error + string) \<Rightarrow> request_body
     \<Rightarrow> 'pdf response \<times> 'page call list" where
  "html_visualiser generateHTML content htmlPage =
     (if falsy htmlPage then
        (\<lparr>status = 400, contentType = None, sent = Text ''Request body is empty.''\<rparr>, [])
      else
        (let failed = \<lparr>status = 500, contentType = Some ''text/html'',
                        sent = Text ''Error generating PDF''\<rparr>
         in case toString htmlPage of
              Inl e \<Rightarrow> (failed, [])
            | Inr text \<Rightarrow>
                (case generateHTML text of
                   Inl e \<Rightarrow> (failed, [GenerateHTML text])
                 | Inr html \<Rightarrow>
                     (case content html of
                        Inl e \<Rightarrow> (failed, [GenerateHTML text, Content html])
                      | Inr markup \<Rightarrow>
                          (\<lparr>status = 200, contentType = Some ''text/html'', sent = Text markup\<rparr>,
                           [GenerateHTML text, Content html])))))"

text \<open>A loaded report without TOC container, and one without page-count field.\<close>

definition page_without_toc :: browser_page where
  "page_without_toc =
     \<lparr>dom = \<lparr>totalPages = Some ''?'', tableOfContent = None\<rparr>, console = []\<rparr>"

definition page_without_total :: browser_page where
  "page_without_total =
     \<lparr>dom = \<lparr>totalPages = None,
             tableOfContent = Some [Some \<lparr>linkText = ''Introduction'', appended = []\<rparr>]\<rparr>,
      console = []\<rparr>"

section \<open>Properties of the title locator\<close>

lemma sublist_Cons_Cons:
  "sublist (x # xs) (y # ys) = (prefix (x # xs) (y # ys) \<or> sublist (x # xs) ys)"
  by (rule sublist_Cons_right)

lemma set_update_subset: "set (AList.update k v al) \<subseteq> insert (k, v) (set al)"
  by (induction al) auto

lemma foldl_invariant:
  assumes "P s" and "\<And>s x. x \<in> set xs \<Longrightarrow> P s \<Longrightarrow> P (f s x)"
  shows "P (foldl f s xs)"
  using assms by (induction xs arbitrary: s) auto

lemma entries_ok_push:
  assumes ok: "entries_ok P tp" and new: "P pageNb index"
  shows "entries_ok P (push_index pageNb index tp)"
  unfolding entries_ok_def
proof (intro ballI, clarify)
  fix q l i
  assume mem: "(q, l) \<in> set (push_index pageNb index tp)" and i: "i \<in> set l"
  let ?old = "case map_of tp pageNb of None \<Rightarrow> [] | Some l \<Rightarrow> l"
  have old: "P pageNb j" if "j \<in> set ?old" for j
  proof (cases "map_of tp pageNb")
    case None
    with that show ?thesis by simp
  next
    case (Some l')
    then have "(pageNb, l') \<in> set tp" by (rule map_of_SomeD)
    with ok that Some show ?thesis by (auto simp: entries_ok_def)
  qed
  from mem have "(q, l) = (pageNb, ?old @ [index]) \<or> (q, l) \<in> set tp"
    using set_update_subset[of pageNb "?old @ [index]" tp] by (auto simp: push_index_def)
  then show "P q i"
  proof
    assume "(q, l) = (pageNb, ?old @ [index])"
    with i have "q = pageNb" and "i \<in> set ?old \<or> i = index" by auto
    with old new show ?thesis by blast
  next
    assume "(q, l) \<in> set tp"
    with ok i show ?thesis by (auto simp: entries_ok_def)
  qed
qed

lemma check_title_page_inv:
  assumes inv: "page_inv doc toc seen st"
    and entry: "entry \<in> set (enumerate 0 toc)"
    and page: "3 \<le> pageNb" "pageNb \<le> numPages doc"
    and seen: "sublist seen (page_text doc pageNb)"
  shows "page_inv doc toc seen (check_title extrapages pageNb st entry)"
proof -
  obtain index title where e: "entry = (index, title)" by (cases entry)
  from entry e have idx: "index < length toc" "toc ! index = title"
    by (auto simp: in_set_enumerate_eq)
  show ?thesis
  proof (cases "str_includes (scrapText st) title")
    case False
    then show ?thesis using inv by (simp add: check_title_def e)
  next
    case True
    then have "sublist title (scrapText st)" by (simp add: str_includes_def)
    moreover have "sublist (scrapText st) seen" using inv by (simp add: page_inv_def)
    ultimately have "sublist title (page_text doc pageNb)"
      using seen by (blast intro: sublist_order.order_trans)
    then have "occurs_ok doc toc pageNb index"
      using page idx by (simp add: occurs_ok_def str_includes_def)
    then have "entries_ok (occurs_ok doc toc) (push_index pageNb index (titlesPages st))"
      using inv by (simp add: page_inv_def entries_ok_push)
    then show ?thesis
      using inv True by (simp add: check_title_def e page_inv_def)
  qed
qed

lemma scan_item_page_inv:
  assumes inv: "page_inv doc toc seen st"
    and page: "3 \<le> pageNb" "pageNb \<le> numPages doc"
    and seen: "sublist (seen @ replace_newline item) (page_text doc pageNb)"
  shows "page_inv doc toc (seen @ replace_newline item) (scan_item toc extrapages pageNb st item)"
  unfolding scan_item_def
proof (rule foldl_invariant)
  show "page_inv doc toc (seen @ replace_newline item)
          (st\<lparr>scrapText := scrapText st @ replace_newline item\<rparr>)"
    using inv by (simp add: page_inv_def)
next
  fix s x
  assume "x \<in> set (enumerate 0 toc)" and "page_inv doc toc (seen @ replace_newline item) s"
  then show "page_inv doc toc (seen @ replace_newline item) (check_title extrapages pageNb s x)"
    using page seen by (intro check_title_page_inv)
qed

lemma scan_items_page_inv:
  assumes "page_inv doc toc (concat (map replace_newline done)) st"
    and "3 \<le> pageNb" "pageNb \<le> numPages doc"
    and "getPage doc pageNb = done @ rest"
  shows "entries_ok (occurs_ok doc toc)
           (titlesPages (foldl (scan_item toc extrapages pageNb) st rest))"
  using assms
proof (induction rest arbitrary: st "done")
  case Nil
  then show ?case by (simp add: page_inv_def)
next
  case (Cons item rest)
  let ?seen = "concat (map replace_newline (done @ [item]))"
  have "prefix ?seen (page_text doc pageNb)"
    using Cons.prems(4) by (simp add: page_text_def)
  then have "sublist (concat (map replace_newline done) @ replace_newline item) (page_text doc pageNb)"
    by auto
  with Cons.prems have "page_inv doc toc (concat (map replace_newline done) @ replace_newline item)
      (scan_item toc extrapages pageNb st item)"
    by (intro scan_item_page_inv)
  then have "page_inv doc toc ?seen (scan_item toc extrapages pageNb st item)" by simp
  moreover have "getPage doc pageNb = (done @ [item]) @ rest" using Cons.prems(4) by simp
  ultimately show ?case
    using Cons.IH[of "done @ [item]" "scan_item toc extrapages pageNb st item"] Cons.prems(2,3)
    by simp
qed

lemma scan_page_entries_ok:
  assumes "entries_ok (occurs_ok doc toc) (titlesPages st)"
    and "3 \<le> pageNb" "pageNb \<le> numPages doc"
  shows "entries_ok (occurs_ok doc toc) (titlesPages (scan_page doc toc extrapages st pageNb))"
  unfolding scan_page_def
  using assms by (intro scan_items_page_inv[where ?done = "[]"]) (simp_all add: page_inv_def)

lemma locate_entries_ok:
  "entries_ok (occurs_ok doc toc) (titlesPages (locate doc toc extrapages))"
  unfolding locate_def
proof (rule foldl_invariant)
  show "entries_ok (occurs_ok doc toc) (titlesPages initial_state)"
    by (simp add: initial_state_def entries_ok_def)
next
  fix s :: locator_state and x
  assume "x \<in> set [3..<Suc (numPages doc)]" and "entries_ok (occurs_ok doc toc) (titlesPages s)"
  then show "entries_ok (occurs_ok doc toc) (titlesPages (scan_page doc toc extrapages s x))"
    by (intro scan_page_entries_ok) auto
qed

lemma replace_newline_single:
  "count_list run newline \<le> 1 \<Longrightarrow> replace_newline run = strip_newlines run"
proof (induction run)
  case Nil
  then show ?case by (simp add: replace_newline_def strip_newlines_def)
next
  case (Cons c run)
  show ?case
  proof (cases "c = newline")
    case True
    with Cons.prems have "newline \<notin> set run" by (simp add: count_list_0_iff)
    then have "filter (\<lambda>c. c \<noteq> newline) run = run" by (induction run) auto
    with True show ?thesis by (simp add: replace_newline_def strip_newlines_def)
  next
    case False
    with Cons show ?thesis by (simp add: replace_newline_def strip_newlines_def)
  qed
qed

lemma strip_newlines_concat:
  "strip_newlines (concat runs) = concat (map strip_newlines runs)"
  by (induction runs) (simp_all add: strip_newlines_def)

lemma page_text_strip:
  assumes "\<forall>run \<in> set (getPage doc pageNb). count_list run newline \<le> 1"
  shows "page_text doc pageNb = strip_newlines (concat (getPage doc pageNb))"
proof -
  have "map replace_newline (getPage doc pageNb) = map strip_newlines (getPage doc pageNb)"
    using assms by (intro map_cong) (simp_all add: replace_newline_single)
  then show ?thesis
    unfolding page_text_def strip_newlines_concat by (rule arg_cong)
qed

lemmas locator_eval = find_page_number_def locate_def scan_page_def scan_item_def check_title_def
  numPages_def getPage_def initial_state_def push_index_def str_includes_def replace_newline_def
  strip_newlines_def newline_def upt_rec sublist_Cons_Cons
  toc_titles_def scenario_A_def scenario_B_def scenario_B_scanned_def repeated_title_def
  broken_line_def

lemma getPage_in_drop:
  assumes "3 \<le> pageNb" "pageNb \<le> numPages doc"
  shows "getPage doc pageNb \<in> set (drop 2 doc)"
proof -
  have "drop 2 doc ! (pageNb - 3) = doc ! (2 + (pageNb - 3))"
    using assms by (simp add: numPages_def)
  moreover have "2 + (pageNb - 3) = pageNb - 1" using assms by simp
  moreover have "pageNb - 3 < length (drop 2 doc)" using assms by (simp add: numPages_def)
  ultimately show ?thesis
    unfolding getPage_def by (metis nth_mem)
qed

text \<open>
  Claim C1, as the code has it. The locator has no record of the titles it has already
  assigned, so an index is listed under every scanned page on which its title matches
  again and may appear under several page keys. What holds: for a document whose text
  runs hold at most one line feed each, an index is listed only under a page between 3
  and the last page, it is an index of the title list, and the title occurs in the
  joined text of that page with the line feeds removed. Hence an index is listed under
  two page keys only when the title occurs on both pages.
\<close>

theorem assigned_only_where_title_occurs:
  assumes runs: "\<forall>content \<in> set (drop 2 doc). \<forall>run \<in> set content. count_list run newline \<le> 1"
    and entry: "(pageNb, indices) \<in> set (find_page_number doc toc extrapages)"
    and index: "index \<in> set indices"
  shows "3 \<le> pageNb \<and> pageNb \<le> numPages doc \<and> index < length toc \<and>
         str_includes (strip_newlines (concat (getPage doc pageNb))) (toc ! index)"
proof -
  have "entries_ok (occurs_ok doc toc) (find_page_number doc toc extrapages)"
    unfolding find_page_number_def by (rule locate_entries_ok)
  with entry index have ok: "occurs_ok doc toc pageNb index"
    unfolding entries_ok_def by blast
  then have range: "3 \<le> pageNb" "pageNb \<le> numPages doc"
    by (simp_all add: occurs_ok_def)
  then have "getPage doc pageNb \<in> set (drop 2 doc)" by (rule getPage_in_drop)
  with runs have "\<forall>run \<in> set (getPage doc pageNb). count_list run newline \<le> 1" by blast
  then have "page_text doc pageNb = strip_newlines (concat (getPage doc pageNb))"
    by (rule page_text_strip)
  with ok show ?thesis by (simp add: occurs_ok_def)
qed

theorem assigned_only_where_title_occurs_witness:
  "(3, [0]) \<in> set (find_page_number broken_line toc_titles 0)
   \<and> str_includes (strip_newlines (concat (getPage broken_line 3))) (toc_titles ! 0)"
proof -
  have runs: "\<forall>content \<in> set (drop 2 broken_line). \<forall>run \<in> set content.
      count_list run newline \<le> 1"
    by (simp add: broken_line_def newline_def)
  have entry: "(3, [0]) \<in> set (find_page_number broken_line toc_titles 0)"
    by (simp add: locator_eval)
  have "(0::nat) \<in> set [0]" by simp
  with runs entry show ?thesis
    using assigned_only_where_title_occurs [of broken_line 3 "[0]" toc_titles 0 0] by blast
qed

text \<open>
  The title of a section that continues on the next page: index 0 is listed under
  page 3 and under page 4.
\<close>

theorem index_on_two_pages_counterexample:
  "find_page_number repeated_title [''Introduction''] 0 = [(3, [0]), (4, [0])]"
  by (simp add: locator_eval)

lemma entries_ok_mono:
  assumes "entries_ok P tp" and "\<And>q i. P q i \<Longrightarrow> Q q i"
  shows "entries_ok Q tp"
  using assms unfolding entries_ok_def by blast

lemma check_title_seen_inv:
  assumes inv: "seen_inv toc st"
    and entry: "entry \<in> set (enumerate 0 toc)"
    and extra: "extrapages > 0"
  shows "seen_inv toc (check_title extrapages pageNb st entry)"
proof -
  obtain index title where e: "entry = (index, title)" by (cases entry)
  from entry e have idx: "index < length toc" "toc ! index = title"
    by (auto simp: in_set_enumerate_eq)
  consider (none) "\<not> str_includes (scrapText st) title"
    | (first) "str_includes (scrapText st) title" "title \<notin> set (foundTitles st)"
    | (again) "str_includes (scrapText st) title" "title \<in> set (foundTitles st)"
    by blast
  then show ?thesis
  proof cases
    case none
    then show ?thesis using inv by (simp add: check_title_def e)
  next
    case first
    have "entries_ok (\<lambda>q i. i < length toc \<and> toc ! i \<in> set (foundTitles st @ [title]))
            (titlesPages st)"
      using inv unfolding seen_inv_def by (rule entries_ok_mono) simp
    then show ?thesis
      using first extra by (simp add: check_title_def e seen_inv_def)
  next
    case again
    have "entries_ok (\<lambda>q i. i < length toc \<and> toc ! i \<in> set (foundTitles st))
            (push_index pageNb index (titlesPages st))"
      using inv idx again unfolding seen_inv_def by (intro entries_ok_push) simp_all
    then show ?thesis
      using again by (simp add: check_title_def e seen_inv_def)
  qed
qed

lemma scan_item_seen_inv:
  assumes "seen_inv toc st" and "extrapages > 0"
  shows "seen_inv toc (scan_item toc extrapages pageNb st item)"
  unfolding scan_item_def
proof (rule foldl_invariant)
  show "seen_inv toc (st\<lparr>scrapText := scrapText st @ replace_newline item\<rparr>)"
    using assms(1) by (simp add: seen_inv_def)
next
  fix s :: locator_state and x
  assume "x \<in> set (enumerate 0 toc)" and "seen_inv toc s"
  then show "seen_inv toc (check_title extrapages pageNb s x)"
    using assms(2) by (intro check_title_seen_inv)
qed

lemma scan_page_seen_inv:
  assumes "seen_inv toc st" and "extrapages > 0"
  shows "seen_inv toc (scan_page doc toc extrapages st pageNb)"
  unfolding scan_page_def
proof (rule foldl_invariant)
  show "seen_inv toc (st\<lparr>scrapText := []\<rparr>)"
    using assms(1) by (simp add: seen_inv_def)
next
  fix s :: locator_state and x
  assume "seen_inv toc s"
  then show "seen_inv toc (scan_item toc extrapages pageNb s x)"
    using assms(2) by (rule scan_item_seen_inv)
qed

lemma locate_seen_inv:
  assumes "extrapages > 0"
  shows "seen_inv toc (locate doc toc extrapages)"
  unfolding locate_def
proof (rule foldl_invariant)
  show "seen_inv toc initial_state"
    by (simp add: seen_inv_def initial_state_def entries_ok_def)
next
  fix s :: locator_state and x
  assume "seen_inv toc s"
  then show "seen_inv toc (scan_page doc toc extrapages s x)"
    using assms by (rule scan_page_seen_inv)
qed

text \<open>
  Claim C4. With \<open>extrapages > 0\<close>, a match of a title that is not yet on
  \<open>foundTitles\<close> only puts it there: the result object is untouched. A match of
  a title that is already there puts its index under the current page. Over a whole
  run, every index in the result belongs to a title that was recorded as seen first.
  In Scenario B the result lists "Introduction" (index 0) under page 4 only, whether
  the spurious text sits on the unscanned page 2 with the contents on page 3, or on
  page 3 itself.
\<close>

theorem first_match_suppressed_with_extra_pages:
  assumes "extrapages > 0"
  shows
    "(str_includes (scrapText st) title \<and> title \<notin> set (foundTitles st) \<longrightarrow>
        check_title extrapages pageNb st (index, title) =
          st\<lparr>foundTitles := foundTitles st @ [title], scrapText := []\<rparr>)
     \<and> (str_includes (scrapText st) title \<and> title \<in> set (foundTitles st) \<longrightarrow>
        check_title extrapages pageNb st (index, title) =
          st\<lparr>titlesPages := push_index pageNb index (titlesPages st), scrapText := []\<rparr>)
     \<and> (\<forall>(q, indices) \<in> set (find_page_number doc toc extrapages). \<forall>i \<in> set indices.
          i < length toc \<and> toc ! i \<in> set (foundTitles (locate doc toc extrapages)))
     \<and> find_page_number scenario_B toc_titles 1 = [(4, [0])]
     \<and> find_page_number scenario_B_scanned toc_titles 1 = [(4, [0])]"
proof -
  have step1: "str_includes (scrapText st) title \<and> title \<notin> set (foundTitles st) \<longrightarrow>
        check_title extrapages pageNb st (index, title) =
          st\<lparr>foundTitles := foundTitles st @ [title], scrapText := []\<rparr>"
    using assms by (simp add: check_title_def)
  have step2: "str_includes (scrapText st) title \<and> title \<in> set (foundTitles st) \<longrightarrow>
        check_title extrapages pageNb st (index, title) =
          st\<lparr>titlesPages := push_index pageNb index (titlesPages st), scrapText := []\<rparr>"
    by (simp add: check_title_def)
  have run: "\<forall>(q, indices) \<in> set (find_page_number doc toc extrapages). \<forall>i \<in> set indices.
          i < length toc \<and> toc ! i \<in> set (foundTitles (locate doc toc extrapages))"
    using locate_seen_inv[OF assms, of toc doc]
    by (simp add: seen_inv_def entries_ok_def find_page_number_def)
  have b1: "find_page_number scenario_B toc_titles 1 = [(4, [0])]"
    by (simp add: locator_eval)
  have b2: "find_page_number scenario_B_scanned toc_titles 1 = [(4, [0])]"
    by (simp add: locator_eval)
  from step1 step2 run b1 b2 show ?thesis by blast
qed

theorem first_match_suppressed_with_extra_pages_witness:
  "check_title 1 3 \<lparr>titlesPages = [], foundTitles = [], scrapText = ''see the Introduction''\<rparr>
      (0, ''Introduction'')
     = \<lparr>titlesPages = [], foundTitles = [''Introduction''], scrapText = []\<rparr>
   \<and> check_title 1 4 \<lparr>titlesPages = [], foundTitles = [''Introduction''], scrapText = ''Introduction''\<rparr>
      (0, ''Introduction'')
     = \<lparr>titlesPages = [(4, [0])], foundTitles = [''Introduction''], scrapText = []\<rparr>"
proof -
  let ?s1 = "\<lparr>titlesPages = [], foundTitles = [], scrapText = ''see the Introduction''\<rparr>"
  let ?s2 = "\<lparr>titlesPages = [], foundTitles = [''Introduction''], scrapText = ''Introduction''\<rparr>"
  have pos: "(1::int) > 0" by simp
  have m1: "str_includes (scrapText ?s1) ''Introduction'' \<and> ''Introduction'' \<notin> set (foundTitles ?s1)"
    by (simp add: str_includes_def sublist_Cons_Cons)
  have m2: "str_includes (scrapText ?s2) ''Introduction'' \<and> ''Introduction'' \<in> set (foundTitles ?s2)"
    by (simp add: str_includes_def sublist_Cons_Cons)
  from m1 first_match_suppressed_with_extra_pages [OF pos, of ?s1 "''Introduction''" 3 0]
  have "check_title 1 3 ?s1 (0, ''Introduction'') =
      ?s1\<lparr>foundTitles := foundTitles ?s1 @ [''Introduction''], scrapText := []\<rparr>"
    by blast
  moreover from m2 first_match_suppressed_with_extra_pages [OF pos, of ?s2 "''Introduction''" 4 0]
  have "check_title 1 4 ?s2 (0, ''Introduction'') =
      ?s2\<lparr>titlesPages := push_index 4 0 (titlesPages ?s2), scrapText := []\<rparr>"
    by blast
  ultimately show ?thesis by (simp add: push_index_def)
qed

lemma check_title_no_extra:
  "foundTitles (check_title 0 pageNb st entry) = foundTitles st"
  by (cases entry) (simp add: check_title_def)

lemma locate_found_empty: "foundTitles (locate doc toc 0) = []"
  unfolding locate_def
proof (rule foldl_invariant)
  show "foundTitles initial_state = []" by (simp add: initial_state_def)
next
  fix s :: locator_state and p
  assume s: "foundTitles s = []"
  show "foundTitles (scan_page doc toc 0 s p) = []"
    unfolding scan_page_def
  proof (rule foldl_invariant)
    show "foundTitles (s\<lparr>scrapText := []\<rparr>) = []" using s by simp
  next
    fix s' :: locator_state and item
    assume s': "foundTitles s' = []"
    show "foundTitles (scan_item toc 0 p s' item) = []"
      unfolding scan_item_def
      by (rule foldl_invariant) (simp_all add: s' check_title_no_extra)
  qed
qed

text \<open>
  Claim C5. With \<open>extrapages = 0\<close> the list \<open>foundTitles\<close> stays empty over
  the whole run, and every match puts the index under the current page at once. In
  Scenario A the result is \<open>{3: [0], 4: [1]}\<close>; index 2 is absent.
\<close>

theorem no_suppression_without_extra_pages:
  "foundTitles (locate doc toc 0) = []
   \<and> (str_includes (scrapText st) title \<longrightarrow>
        check_title 0 pageNb st (index, title) =
          st\<lparr>titlesPages := push_index pageNb index (titlesPages st), scrapText := []\<rparr>)
   \<and> find_page_number scenario_A toc_titles 0 = [(3, [0]), (4, [1])]"
proof -
  have "find_page_number scenario_A toc_titles 0 = [(3, [0]), (4, [1])]"
    by (simp add: locator_eval)
  moreover have "str_includes (scrapText st) title \<longrightarrow>
        check_title 0 pageNb st (index, title) =
          st\<lparr>titlesPages := push_index pageNb index (titlesPages st), scrapText := []\<rparr>"
    by (simp add: check_title_def)
  ultimately show ?thesis using locate_found_empty by blast
qed

theorem no_suppression_without_extra_pages_witness:
  "check_title 0 3 \<lparr>titlesPages = [], foundTitles = [], scrapText = ''Introduction''\<rparr>
      (0, ''Introduction'')
     = \<lparr>titlesPages = [(3, [0])], foundTitles = [], scrapText = []\<rparr>"
proof -
  let ?s = "\<lparr>titlesPages = [], foundTitles = [], scrapText = ''Introduction''\<rparr>"
  have m: "str_includes (scrapText ?s) ''Introduction''"
    by (simp add: str_includes_def sublist_Cons_Cons)
  with no_suppression_without_extra_pages [of undefined undefined ?s "''Introduction''" 3 0]
  have "check_title 0 3 ?s (0, ''Introduction'') =
      ?s\<lparr>titlesPages := push_index 3 0 (titlesPages ?s), scrapText := []\<rparr>"
    by blast
  then show ?thesis by (simp add: push_index_def)
qed

lemma getPage_drop:
  assumes "3 \<le> pageNb" "pageNb \<le> numPages doc"
  shows "getPage doc pageNb = drop 2 doc ! (pageNb - 3)"
proof -
  have "2 + (pageNb - 3) = pageNb - 1" using assms by simp
  then show ?thesis using assms by (simp add: getPage_def numPages_def)
qed

text \<open>
  Claim C10. The result is a function of the text handed in: two parsed documents with
  the same number of pages and the same text runs on the pages from 3 on give equal
  results for the same titles and the same \<open>extrapages\<close>; the same document
  twice is the special case. Every run starts from \<open>initial_state\<close>, nothing is
  carried over from an earlier run.
\<close>

theorem find_page_number_deterministic:
  assumes "numPages doc = numPages doc'" and "drop 2 doc = drop 2 doc'"
  shows "find_page_number doc toc extrapages = find_page_number doc' toc extrapages"
proof -
  have "foldl (scan_page doc toc extrapages) initial_state [3 ..< Suc (numPages doc)]
      = foldl (scan_page doc' toc extrapages) initial_state [3 ..< Suc (numPages doc')]"
  proof (rule foldl_cong)
    show "[3 ..< Suc (numPages doc)] = [3 ..< Suc (numPages doc')]" using assms(1) by simp
  next
    fix s :: locator_state and p
    assume "p \<in> set [3 ..< Suc (numPages doc)]"
    then have "3 \<le> p" "p \<le> numPages doc" "p \<le> numPages doc'" using assms(1) by auto
    then have "getPage doc p = getPage doc' p"
      using assms(2) by (simp add: getPage_drop)
    then show "scan_page doc toc extrapages s p = scan_page doc' toc extrapages s p"
      by (simp add: scan_page_def)
  qed simp
  then show ?thesis by (simp add: find_page_number_def locate_def)
qed

theorem find_page_number_deterministic_witness:
  "find_page_number scenario_A toc_titles 0 = find_page_number scenario_A_other_cover toc_titles 0
   \<and> find_page_number scenario_A toc_titles 0 = find_page_number scenario_A toc_titles 0"
proof -
  have n: "numPages scenario_A = numPages scenario_A_other_cover"
    by (simp add: numPages_def scenario_A_def scenario_A_other_cover_def)
  have d: "drop 2 scenario_A = drop 2 scenario_A_other_cover"
    by (simp add: scenario_A_def scenario_A_other_cover_def)
  show ?thesis
    using find_page_number_deterministic [OF n d, of toc_titles 0]
      find_page_number_deterministic [of scenario_A scenario_A toc_titles 0]
    by simp
qed

section \<open>Properties of the PDF assembler\<close>

lemmas merge_eval = mergePDFs_def and_then_def load_def save_def removePage_def copyPages_def
  insertPage_def cover_doc_def cover_overflow_doc_def body_doc_def

lemma remove_overflow_ok:
  "n < length doc \<Longrightarrow> remove_overflow n doc = Inr (doc ! 0 # drop (Suc n) doc)"
proof (induction n arbitrary: doc)
  case 0
  then show ?case by (cases doc) simp_all
next
  case (Suc n)
  then obtain p q rest where doc: "doc = p # q # rest"
    by (cases doc; cases "tl doc") auto
  with Suc.prems have "n < length (p # rest)" by simp
  then have "remove_overflow n (p # rest) = Inr ((p # rest) ! 0 # drop (Suc n) (p # rest))"
    by (rule Suc.IH)
  then show ?case by (simp add: doc removePage_def)
qed

lemma mergePDFs_ok:
  assumes "body \<noteq> []" and "nat extrapages < length cover"
  shows "mergePDFs [PdfBytes cover, PdfBytes body] extrapages = Inr (PdfBytes (cover ! 0 # drop 1 body))"
proof -
  have "remove_overflow (nat extrapages) cover = Inr (cover ! 0 # drop (Suc (nat extrapages)) cover)"
    using assms(2) by (rule remove_overflow_ok)
  then show ?thesis
    using assms(1) by (simp add: merge_eval)
qed

text \<open>
  Claim C2, as the code has it. The page \<open>mergePDFs\<close> deletes from the body
  document is the one at index 0 (\<open>restPDFDoc.removePage(0)\<close>, before the cover is
  inserted; it is at index 1 only when counted in the merged document). When the body
  has a page and the cover has more pages than \<open>extrapages\<close>, the merged document is
  page 0 of the cover followed by every body page except the first, in order.
\<close>

theorem mergePDFs_removes_first_body_page:
  assumes "body \<noteq> []" and "nat extrapages < length cover"
  shows "mergePDFs [PdfBytes cover, PdfBytes body] extrapages =
           Inr (PdfBytes (cover ! 0 # drop 1 body))
         \<and> removePage 0 body = Inr (drop 1 body)"
  using mergePDFs_ok [OF assms] assms(1) by (simp add: removePage_def)

theorem mergePDFs_removes_first_body_page_witness:
  "mergePDFs [PdfBytes cover_doc, PdfBytes body_doc] 0 =
     Inr (PdfBytes (cover_doc ! 0 # drop 1 body_doc))"
proof -
  have "body_doc \<noteq> []" by (simp add: body_doc_def)
  moreover have "nat 0 < length cover_doc" by (simp add: cover_doc_def)
  ultimately show ?thesis
    using mergePDFs_removes_first_body_page [of body_doc 0 cover_doc] by blast
qed

text \<open>
  A body of three pages: the page at index 1 ("contents") is in the merged document,
  the page at index 0 ("blank") is not.
\<close>

theorem mergePDFs_keeps_second_body_page_counterexample:
  "mergePDFs [PdfBytes cover_doc, PdfBytes body_doc] 0 =
     Inr (PdfBytes [''cover'', ''contents'', ''chapter 1''])
   \<and> mergePDFs [PdfBytes cover_doc, PdfBytes body_doc] 0 \<noteq>
     Inr (PdfBytes [''cover'', ''blank'', ''chapter 1''])"
  by (simp add: merge_eval)

text \<open>
  Claim C3, as the code has it. The overflow pages are deleted from the cover document,
  of which only page 0 reaches the output, so they do not enter the count: under the
  same preconditions the merged document has the body's page count minus 1 plus 1, the
  trimmed cover keeps its page count minus \<open>extrapages\<close>, and page 0 of the merged
  document is page 0 of the trimmed cover.
\<close>

theorem mergePDFs_page_count:
  assumes "body \<noteq> []" and "nat extrapages < length cover"
  shows "\<exists>merged trimmed.
           mergePDFs [PdfBytes cover, PdfBytes body] extrapages = Inr (PdfBytes merged)
         \<and> remove_overflow (nat extrapages) cover = Inr trimmed
         \<and> length trimmed = length cover - nat extrapages
         \<and> int (length merged) = int (length body) - 1 + 1
         \<and> merged ! 0 = trimmed ! 0"
proof -
  let ?merged = "cover ! 0 # drop 1 body"
  let ?trimmed = "cover ! 0 # drop (Suc (nat extrapages)) cover"
  have merged: "mergePDFs [PdfBytes cover, PdfBytes body] extrapages = Inr (PdfBytes ?merged)"
    using assms by (rule mergePDFs_ok)
  have trimmed: "remove_overflow (nat extrapages) cover = Inr ?trimmed"
    using assms(2) by (rule remove_overflow_ok)
  have kept: "length ?trimmed = length cover - nat extrapages"
    using assms(2) by simp
  have count: "int (length ?merged) = int (length body) - 1 + 1"
    using assms(1) by (cases body) simp_all
  have first: "?merged ! 0 = ?trimmed ! 0" by simp
  from merged trimmed kept count first show ?thesis by blast
qed

theorem mergePDFs_page_count_witness:
  "\<exists>merged trimmed.
     mergePDFs [PdfBytes cover_overflow_doc, PdfBytes body_doc] 1 = Inr (PdfBytes merged)
   \<and> remove_overflow (nat 1) cover_overflow_doc = Inr trimmed
   \<and> length trimmed = length cover_overflow_doc - nat 1
   \<and> int (length merged) = int (length body_doc) - 1 + 1
   \<and> merged ! 0 = trimmed ! 0"
proof -
  have "body_doc \<noteq> []" by (simp add: body_doc_def)
  moreover have "nat 1 < length cover_overflow_doc" by (simp add: cover_overflow_doc_def)
  ultimately show ?thesis
    using mergePDFs_page_count [of body_doc 1 cover_overflow_doc] by blast
qed

text \<open>
  A cover of two pages with \<open>extrapages = 1\<close> and a body of three pages: the merged
  document has three pages, not 3 - 1 - 1 + 1 = 2.
\<close>

theorem mergePDFs_page_count_counterexample:
  "mergePDFs [PdfBytes cover_overflow_doc, PdfBytes body_doc] 1 =
     Inr (PdfBytes [''cover'', ''contents'', ''chapter 1''])
   \<and> int (length [''cover'', ''contents'', ''chapter 1'']) \<noteq> int (length body_doc) - 1 - 1 + 1"
  by (simp add: merge_eval)

lemma remove_overflow_error:
  "remove_overflow n doc = Inl e \<Longrightarrow> e \<noteq> CountMismatch"
  by (induction n arbitrary: doc) (auto simp: removePage_def split: sum.splits if_splits)

text \<open>
  Claim C6. \<open>mergePDFs\<close> fails with the count-mismatch error exactly when the array
  does not hold two buffers. The check comes before the loads: with another length the
  error is the count mismatch whatever the buffers are, unloadable ones included.
\<close>

theorem mergePDFs_count_mismatch:
  "(mergePDFs pdfBuffers extrapages = Inl CountMismatch) = (length pdfBuffers \<noteq> 2)"
proof (cases "length pdfBuffers = 2")
  case False
  then show ?thesis by (simp add: mergePDFs_def)
next
  case True
  have "mergePDFs pdfBuffers extrapages \<noteq> Inl CountMismatch"
  proof
    assume "mergePDFs pdfBuffers extrapages = Inl CountMismatch"
    with True show False
      by (auto simp: mergePDFs_def and_then_def load_def removePage_def copyPages_def
          insertPage_def split: sum.splits pdf_buffer.splits list.splits if_splits
          dest: remove_overflow_error)
  qed
  with True show ?thesis by simp
qed

theorem mergePDFs_count_mismatch_witness:
  "mergePDFs [PdfBytes body_doc] 0 = Inl CountMismatch
   \<and> mergePDFs [PdfBytes cover_doc, PdfBytes body_doc, PdfBytes body_doc] 0 = Inl CountMismatch
   \<and> mergePDFs [Unparseable :: string pdf_buffer] 0 = Inl CountMismatch
   \<and> mergePDFs [PdfBytes cover_doc, PdfBytes body_doc] 0 \<noteq> Inl CountMismatch
   \<and> mergePDFs [Unparseable :: string pdf_buffer, Unparseable] 0 \<noteq> Inl CountMismatch"
  using mergePDFs_count_mismatch [of "[PdfBytes body_doc]" 0]
    mergePDFs_count_mismatch [of "[PdfBytes cover_doc, PdfBytes body_doc, PdfBytes body_doc]" 0]
    mergePDFs_count_mismatch [of "[Unparseable :: string pdf_buffer]" 0]
    mergePDFs_count_mismatch [of "[PdfBytes cover_doc, PdfBytes body_doc]" 0]
    mergePDFs_count_mismatch [of "[Unparseable :: string pdf_buffer, Unparseable]" 0]
  by simp

section \<open>Properties of the document updates and of the HTTP front end\<close>

lemma updateTableOfContent_missing:
  assumes "tableOfContent (dom page) = None"
  shows "updateTableOfContent page doc extrapages =
           Inr (page\<lparr>console := console page @ [TocUpdateStarted, TocNotFound]\<rparr>)"
  using assms by (simp add: updateTableOfContent_def log_def)

lemma updatePageCount_present:
  assumes "totalPages (dom page) = Some old"
  shows "updatePageCount page n =
           Inr (page\<lparr>dom := (dom page)\<lparr>totalPages := Some (show_nat n)\<rparr>,
                     console := console page @ [PageCountStarted, PageCountDone (Some (show_nat n))]\<rparr>)"
  using assms by (simp add: updatePageCount_def log_def Let_def)

text \<open>
  Claim C7. Without a TOC container \<open>updateTableOfContent\<close> logs twice and returns;
  the document is as it was. In the pipeline \<open>updatePageCount\<close> has run before it:
  when the page-count field exists, the two calls together succeed, the field holds the
  page count, and the document still has no TOC.
\<close>

theorem missing_toc_is_not_fatal:
  assumes "tableOfContent (dom page) = None"
  shows "updateTableOfContent page doc extrapages =
           Inr (page\<lparr>console := console page @ [TocUpdateStarted, TocNotFound]\<rparr>)
         \<and> (totalPages (dom page) \<noteq> None \<longrightarrow>
              generatePDF_update page doc extrapages =
                Inr (page\<lparr>dom := (dom page)\<lparr>totalPages := Some (show_nat (numPages doc))\<rparr>,
                          console := console page @
                            [PageCountStarted, PageCountDone (Some (show_nat (numPages doc))),
                             TocUpdateStarted, TocNotFound]\<rparr>))"
proof (intro conjI impI)
  show "updateTableOfContent page doc extrapages =
           Inr (page\<lparr>console := console page @ [TocUpdateStarted, TocNotFound]\<rparr>)"
    using assms by (rule updateTableOfContent_missing)
next
  assume "totalPages (dom page) \<noteq> None"
  then obtain old where old: "totalPages (dom page) = Some old" by blast
  let ?page = "page\<lparr>dom := (dom page)\<lparr>totalPages := Some (show_nat (numPages doc))\<rparr>,
                     console := console page @
                       [PageCountStarted, PageCountDone (Some (show_nat (numPages doc)))]\<rparr>"
  have count: "updatePageCount page (numPages doc) = Inr ?page"
    using old by (rule updatePageCount_present)
  have "tableOfContent (dom ?page) = None" using assms by simp
  then have "updateTableOfContent ?page doc extrapages =
      Inr (?page\<lparr>console := console ?page @ [TocUpdateStarted, TocNotFound]\<rparr>)"
    by (rule updateTableOfContent_missing)
  with count show "generatePDF_update page doc extrapages =
      Inr (page\<lparr>dom := (dom page)\<lparr>totalPages := Some (show_nat (numPages doc))\<rparr>,
                console := console page @
                  [PageCountStarted, PageCountDone (Some (show_nat (numPages doc))),
                   TocUpdateStarted, TocNotFound]\<rparr>)"
    by (simp add: generatePDF_update_def and_then_def)
qed

lemma show_nat_4: "show_nat 4 = ''4''"
  by (simp add: show_nat.simps [of 4] digit_char_def)

theorem missing_toc_is_not_fatal_witness:
  "updateTableOfContent page_without_toc scenario_A 0 =
     Inr \<lparr>dom = \<lparr>totalPages = Some ''?'', tableOfContent = None\<rparr>,
          console = [TocUpdateStarted, TocNotFound]\<rparr>
   \<and> generatePDF_update page_without_toc scenario_A 0 =
     Inr \<lparr>dom = \<lparr>totalPages = Some ''4'', tableOfContent = None\<rparr>,
          console = [PageCountStarted, PageCountDone (Some ''4''), TocUpdateStarted, TocNotFound]\<rparr>"
proof -
  have toc: "tableOfContent (dom page_without_toc) = None"
    by (simp add: page_without_toc_def)
  have total: "totalPages (dom page_without_toc) \<noteq> None"
    by (simp add: page_without_toc_def)
  have n: "numPages scenario_A = 4" by (simp add: numPages_def scenario_A_def)
  from missing_toc_is_not_fatal [OF toc, of scenario_A 0] total
  show ?thesis by (simp add: n show_nat_4 page_without_toc_def)
qed

text \<open>
  Claim C9. Without an element of class \<open>totalPages\<close> the first \<open>$eval\<close> of
  \<open>updatePageCount\<close> rejects, and \<open>generatePDF\<close> passes the error on: the TOC
  update is not reached.
\<close>

theorem missing_total_pages_is_fatal:
  assumes "totalPages (dom page) = None"
  shows "updatePageCount page firstPagesCount = Inl SelectorNotFound
         \<and> generatePDF_update page doc extrapages = Inl SelectorNotFound"
  using assms by (simp add: updatePageCount_def generatePDF_update_def and_then_def log_def)

theorem missing_total_pages_is_fatal_witness:
  "updatePageCount page_without_total 4 = Inl SelectorNotFound
   \<and> generatePDF_update page_without_total scenario_A 0 = Inl SelectorNotFound"
proof -
  have "totalPages (dom page_without_total) = None"
    by (simp add: page_without_total_def)
  then show ?thesis
    using missing_total_pages_is_fatal [of page_without_total 4 scenario_A 0] by blast
qed

lemma falsy_rejected:
  "falsy body \<Longrightarrow>
     pdf_visualiser generateHTML generatePDF body =
       (\<lparr>status = 400, contentType = None, sent = Text ''Request body is empty.''\<rparr>, [])
   \<and> html_visualiser generateHTML content body =
       (\<lparr>status = 400, contentType = None, sent = Text ''Request body is empty.''\<rparr>, [])"
  by (simp add: pdf_visualiser_def html_visualiser_def)

text \<open>
  Claim C8 against the code. A body that is \<open>undefined\<close> is answered with 400 and
  no call; a body of length zero arrives as a buffer, which is truthy, so both handlers
  go on to \<open>generateHTML\<close> with the empty string and answer 200 or 500.
\<close>

theorem empty_buffer_is_rendered:
  "status (fst (pdf_visualiser generateHTML generatePDF (Buffer []))) \<noteq> 400
   \<and> hd (snd (pdf_visualiser generateHTML generatePDF (Buffer []))) = GenerateHTML []
   \<and> snd (pdf_visualiser generateHTML generatePDF (Buffer [])) \<noteq> []
   \<and> status (fst (html_visualiser generateHTML content (Buffer []))) \<noteq> 400
   \<and> hd (snd (html_visualiser generateHTML content (Buffer []))) = GenerateHTML []
   \<and> snd (html_visualiser generateHTML content (Buffer [])) \<noteq> []"
  by (simp add: pdf_visualiser_def html_visualiser_def falsy_def toString_def Let_def
      split: sum.splits)

end
